theory Spec2Isabelle
  imports Main "HOL-Library.Sublist"
begin

section \<open>Data model of the dashboard (Dashboard.tsx)\<close>

text \<open>
  Strings are byte strings: the pictographs of the source are written as their UTF-8
  bytes. Numbers that the component only stores and never computes with
  (scores, confidence) are integers.
\<close>

datatype status = Pending | Running | Complete | Error

record Agent =
  idA :: string
  icon :: string
  name :: string
  status :: status
  logs :: "string list"
  thinkingText :: string

record Flag =
  layer :: string
  severity :: string
  description :: string
  confidence :: int

record AnalysisResult =
  risk_score :: int
  verdict :: string
  flags :: "Flag list"
  explanation :: string
  software_detected :: "string option"
  is_edited :: bool
  font_consistency_score :: int
  alignment_score :: int

record File =
  fileName :: string
  fileType :: string

text \<open>The multipart form that \<open>handleAnalyze\<close> posts to \<open>/api/py/scan\<close>.\<close>

record FormData =
  image_f :: File
  claimed_amount :: string
  expected_bank :: string

text \<open>
  One element of \<open>data.agents\<close>; \<open>ba_logs\<close> is \<open>None\<close> when the element has no
  (truthy) \<open>logs\<close>, the case \<open>backendAgent.logs || []\<close> provides for.
\<close>

record BackendAgent =
  ba_name :: string
  ba_logs :: "string list option"

text \<open>
  A JSON value, as \<open>response.json()\<close> builds it. Numbers are whole numbers (below
  \<open>10^21\<close> in size, which print in decimal): the component only tests a number for
  truthiness and prints it.
\<close>

datatype Json =
    JNull
  | JBool bool
  | JNum int
  | JStr string
  | JArr "Json list"
  | JObj "(string \<times> Json) list"

text \<open>
  A parsed JSON body other than \<open>null\<close>, by the four properties the component reads:
  \<open>detail\<close> on a non-success status, the other three on success. \<open>None\<close> is a
  property that is absent; a body that is a number, a string, a boolean or an array has
  none of them. \<open>detail\<close> is any JSON value: the component tests it for truthiness and
  hands it to \<open>new Error\<close>. The three properties of a success body have the types the
  payload of the service gives them.
\<close>

record Body =
  detail :: "Json option"
  agents_b :: "BackendAgent list option"
  logs_b :: "string list option"
  analysis :: "AnalysisResult option"

text \<open>
  What \<open>response.json()\<close> gives: \<open>Throws msg\<close> when the body is not JSON and the
  promise rejects (\<open>msg\<close> is the message of the error); \<open>Null msg\<close> when the body is
  the JSON value \<open>null\<close>, of which reading a property throws a \<open>TypeError\<close> (\<open>msg\<close>
  is the message the engine gives it); \<open>Object b\<close> for every other body.
\<close>

datatype Parsed = Throws string | Null string | Object Body

record Response =
  ok :: bool
  http_status :: nat
  statusText :: string
  bodyText :: string
  json :: Parsed

text \<open>
  The three ways the single \<open>fetch\<close> of a run ends: it rejects (transport failure, with
  the message of the error), or it resolves with a response.
\<close>

datatype outcome = Rejected string | Resolved Response

text \<open>
  A suspended \<open>simulateAgentProgress\<close>: it always sleeps in the \<open>await\<close> of the dwell
  loop of stage \<open>sim_i\<close>. \<open>cap\<close> is the \<open>agents\<close> array its closure captured,
  \<open>rand k\<close> the millisecond part that \<open>Math.random() * 1000\<close> contributes to the dwell of
  stage \<open>k\<close> (rounded up: the other side of the comparison is a whole number of
  milliseconds).
\<close>

record SimTask =
  cap :: "Agent list"
  rand :: "nat \<Rightarrow> nat"
  sim_i :: nat
  sim_start :: int
  sim_waitTime :: int

text \<open>
  The component state (the \<open>useState\<close> cells and the \<open>isAnalyzingRef\<close> ref), together with
  what is pending on the event loop: the sleeping simulators and the requests that have been
  issued and not yet answered. \<open>currentAgentIndex = -1\<close> is "none".
\<close>

record State =
  fileSel :: "File option"
  isAnalyzing :: bool
  result :: "AnalysisResult option"
  agents :: "Agent list"
  allLogs :: "string list"
  claimedAmount :: string
  expectedBank :: string
  currentAgentIndex :: int
  isAnalyzingRef :: bool
  sims :: "SimTask list"
  requests :: "FormData list"

section \<open>Constants of the source\<close>

definition crossMark :: string where
  "crossMark = [CHR 0xE2, CHR 0x9D, CHR 0x8C]"

definition checkMark :: string where
  "checkMark = [CHR 0xE2, CHR 0x9C, CHR 0x93]"

definition iconMeta :: string where
  "iconMeta = [CHR 0xF0, CHR 0x9F, CHR 0x95, CHR 0xB5, CHR 0xEF, CHR 0xB8, CHR 0x8F]"

definition iconPrivacy :: string where
  "iconPrivacy = [CHR 0xF0, CHR 0x9F, CHR 0x94, CHR 0x92]"

definition iconVision :: string where
  "iconVision = [CHR 0xF0, CHR 0x9F, CHR 0xA7, CHR 0xA0]"

definition doneMarker :: string where
  "doneMarker = checkMark @ '' Analysis Complete''"

definition failedMarker :: string where
  "failedMarker = ''Analysis Failed''"

definition terminatedLine :: string where
  "terminatedLine = crossMark @ '' Agent process terminated unexpectedly.''"

definition errorLine :: "string \<Rightarrow> string" where
  "errorLine msg = crossMark @ '' Error: '' @ msg"

definition initialAgents :: "Agent list" where
  "initialAgents =
     [\<lparr>idA = ''meta'', icon = iconMeta, name = ''Agent Meta'', status = Pending,
        logs = [], thinkingText = ''''\<rparr>,
      \<lparr>idA = ''privacy'', icon = iconPrivacy, name = ''Agent Privacy'', status = Pending,
        logs = [], thinkingText = ''''\<rparr>,
      \<lparr>idA = ''vision'', icon = iconVision, name = ''Agent Vision'', status = Pending,
        logs = [], thinkingText = ''''\<rparr>]"

definition initialState :: State where
  "initialState =
     \<lparr>fileSel = None, isAnalyzing = False, result = None, agents = initialAgents,
      allLogs = [], claimedAmount = '''', expectedBank = ''unknown'',
      currentAgentIndex = -1, isAnalyzingRef = False, sims = [], requests = []\<rparr>"

definition AGENT_THINKING :: "string \<Rightarrow> string list option" where
  "AGENT_THINKING = map_of
     [(''meta'',
        [''Extracting EXIF metadata...'',
         ''Checking for editing software signatures...'',
         ''Analyzing device information...'',
         ''Verifying image authenticity markers...'',
         ''Scanning for Photoshop/GIMP traces...'']),
      (''privacy'',
        [''Running OCR text extraction...'',
         ''Detecting sensitive information patterns...'',
         ''Identifying account numbers...'',
         ''Applying privacy redaction...'',
         ''Preparing sanitized image...'']),
      (''vision'',
        [''Connecting to Gemini AI...'',
         ''Analyzing font consistency...'',
         ''Checking text alignment patterns...'',
         ''Detecting visual artifacts...'',
         ''Evaluating receipt authenticity...''])]"

text \<open>
  \<open>agentNames[agentId]\<close> inside a template literal: an identifier that is not a key of the
  table prints as \<open>undefined\<close>.
\<close>

definition agentNames :: "string \<Rightarrow> string" where
  "agentNames k =
     (case map_of [(''meta'', ''Agent Meta''), (''privacy'', ''Agent Privacy''),
                   (''vision'', ''Agent Vision'')] k of
        Some n \<Rightarrow> n
      | None \<Rightarrow> ''undefined'')"

section \<open>Library functions of the platform\<close>

text \<open>\<open>String.prototype.toLowerCase\<close> on the ASCII letters; other bytes stay.\<close>

definition lowerChar :: "char \<Rightarrow> char" where
  "lowerChar c =
     (if 65 \<le> (of_char c :: nat) \<and> (of_char c :: nat) \<le> 90
      then char_of ((of_char c :: nat) + 32) else c)"

definition toLowerCase :: "string \<Rightarrow> string" where
  "toLowerCase s = map lowerChar s"

text \<open>\<open>s.includes(sub)\<close>: \<open>sub\<close> occurs in \<open>s\<close> as a contiguous piece.\<close>

fun includes_s :: "string \<Rightarrow> string \<Rightarrow> bool" where
  "includes_s [] sub = (sub = [])"
| "includes_s (c # cs) sub = (prefix sub (c # cs) \<or> includes_s cs sub)"

text \<open>A number printed in a template literal (decimal digits).\<close>

fun showNat :: "nat \<Rightarrow> string" where
  "showNat n =
     (if n < 10 then [char_of (48 + n)]
      else showNat (n div 10) @ [char_of (48 + n mod 10)])"

text \<open>Truthiness of a JSON value (\<open>if (errorData.detail)\<close>).\<close>

fun truthy :: "Json \<Rightarrow> bool" where
  "truthy JNull = False"
| "truthy (JBool b) = b"
| "truthy (JNum n) = (n \<noteq> 0)"
| "truthy (JStr s) = (s \<noteq> [])"
| "truthy (JArr xs) = True"
| "truthy (JObj kvs) = True"

definition showInt :: "int \<Rightarrow> string" where
  "showInt n = (if n < 0 then ''-'' @ showNat (nat (- n)) else showNat (nat n))"

text \<open>
  \<open>String(v)\<close>, the message \<open>new Error(v)\<close> gets: a string is itself, an array
  is its elements joined by commas with \<open>null\<close> printed as nothing, and an object is
  \<open>[object Object]\<close>.
\<close>

fun toStringJS :: "Json \<Rightarrow> string"
  and joinJS :: "Json list \<Rightarrow> string" where
  "toStringJS JNull = ''null''"
| "toStringJS (JBool b) = (if b then ''true'' else ''false'')"
| "toStringJS (JNum n) = showInt n"
| "toStringJS (JStr s) = s"
| "toStringJS (JArr xs) = joinJS xs"
| "toStringJS (JObj kvs) = ''[object Object]''"
| "joinJS [] = []"
| "joinJS [x] = (if x = JNull then [] else toStringJS x)"
| "joinJS (x # y # ys) = (if x = JNull then [] else toStringJS x) @ '','' @ joinJS (y # ys)"

text \<open>\<open>xs.map((a, idx) => idx === i ? f(a) : a)\<close>\<close>

definition mapAt :: "nat \<Rightarrow> ('a \<Rightarrow> 'a) \<Rightarrow> 'a list \<Rightarrow> 'a list" where
  "mapAt i f xs = map (\<lambda>(idx, a). if idx = i then f a else a) (enumerate 0 xs)"

section \<open>The reconciler: the continuation of \<open>handleAnalyze\<close> after the request\<close>

text \<open>
  Lines 200-211: the message of the error thrown for a response whose \<open>ok\<close> is false.
  The generic text is the default; a truthy \<open>detail\<close> replaces it, and \<open>new Error\<close>
  turns it into a string; the raw text is read only in the \<open>catch\<close>, that is when
  \<open>clonedResponse.json()\<close> rejects or when reading \<open>detail\<close> of \<open>null\<close> throws.
\<close>

definition httpErrorMessage :: "Response \<Rightarrow> string" where
  "httpErrorMessage r =
     (let errorMessage = ''HTTP Error '' @ showNat (http_status r) @ '': '' @ statusText r
      in case json r of
           Object errorData \<Rightarrow>
             (case detail errorData of
                Some d \<Rightarrow> if truthy d then toStringJS d else errorMessage
              | None \<Rightarrow> errorMessage)
         | Throws e \<Rightarrow>
             (if bodyText r \<noteq> [] then bodyText r else errorMessage)
         | Null e \<Rightarrow>
             (if bodyText r \<noteq> [] then bodyText r else errorMessage))"

text \<open>
  What the \<open>try\<close> block of \<open>handleAnalyze\<close> comes to once the request has ended:
  \<open>Inl msg\<close> when an error with message \<open>msg\<close> reaches the \<open>catch\<close>,
  \<open>Inr data\<close> when \<open>data\<close> has been parsed from a success response. A success
  body \<open>null\<close> throws at \<open>data.agents\<close> (line 219).
\<close>

definition fetchResult :: "outcome \<Rightarrow> string + Body" where
  "fetchResult out =
     (case out of
        Rejected msg \<Rightarrow> Inl msg
      | Resolved r \<Rightarrow>
          if \<not> ok r then Inl (httpErrorMessage r)
          else (case json r of
                  Throws msg \<Rightarrow> Inl msg
                | Null msg \<Rightarrow> Inl msg
                | Object data \<Rightarrow> Inr data))"

text \<open>Lines 219-228: the updater given to \<open>setAgents\<close> on success.\<close>

definition reconcileAgent :: "BackendAgent list \<Rightarrow> Agent \<Rightarrow> Agent" where
  "reconcileAgent bas a =
     (case find (\<lambda>ba. includes_s (toLowerCase (ba_name ba)) (idA a)) bas of
        Some backendAgent \<Rightarrow>
          a\<lparr>status := Complete,
            logs := (case ba_logs backendAgent of Some l \<Rightarrow> l | None \<Rightarrow> []),
            thinkingText := doneMarker\<rparr>
      | None \<Rightarrow> a)"

text \<open>Lines 215-235: the success path.\<close>

definition onSuccess :: "Body \<Rightarrow> State \<Rightarrow> State" where
  "onSuccess data s =
     (let s1 = s\<lparr>isAnalyzingRef := False\<rparr>;
          s2 = (case agents_b data of
                  Some bas \<Rightarrow> s1\<lparr>agents := map (reconcileAgent bas) (agents s1)\<rparr>
                | None \<Rightarrow> s1);
          s3 = (case logs_b data of
                  Some l \<Rightarrow> s2\<lparr>allLogs := l\<rparr>
                | None \<Rightarrow> s2)
      in s3\<lparr>result := analysis data\<rparr>)"

text \<open>Lines 236-245: the \<open>catch\<close> block.\<close>

definition onFailure :: "string \<Rightarrow> State \<Rightarrow> State" where
  "onFailure msg s =
     (let s1 = s\<lparr>isAnalyzingRef := False\<rparr>;
          s2 = s1\<lparr>allLogs := allLogs s1 @ [errorLine msg]\<rparr>
      in s2\<lparr>agents := map (\<lambda>a. a\<lparr>status := Error, thinkingText := failedMarker,
                                  logs := logs a @ [terminatedLine]\<rparr>) (agents s2)\<rparr>)"

text \<open>Lines 246-249: the \<open>finally\<close> block.\<close>

definition finallyBlock :: "State \<Rightarrow> State" where
  "finallyBlock s = s\<lparr>isAnalyzing := False, isAnalyzingRef := False\<rparr>"

text \<open>
  The whole continuation. The component changes no state between the end of the request
  and the end of the body parsing, so the continuation is one step.
\<close>

definition resume :: "outcome \<Rightarrow> State \<Rightarrow> State" where
  "resume out s =
     (case fetchResult out of
        Inl msg \<Rightarrow> finallyBlock (onFailure msg s)
      | Inr data \<Rightarrow> finallyBlock (onSuccess data s))"

section \<open>The simulator: \<open>simulateAgentProgress\<close>\<close>

text \<open>Line 174, after the \<open>for\<close> loop: the coroutine ends.\<close>

definition simExit :: "State \<Rightarrow> State" where
  "simExit s = s\<lparr>currentAgentIndex := -1\<rparr>"

text \<open>Lines 147-157: what the loop body does before the dwell.\<close>

definition stageStart :: "Agent list \<Rightarrow> nat \<Rightarrow> State \<Rightarrow> State" where
  "stageStart c i s =
     (let s1 = s\<lparr>currentAgentIndex := int i\<rparr>;
          s2 = s1\<lparr>agents := mapAt i (\<lambda>a. a\<lparr>status := Running\<rparr>) (agents s1)\<rparr>
      in s2\<lparr>allLogs := allLogs s2 @
                 [icon (c ! i) @ '' '' @ agentNames (idA (c ! i)) @ '' initialized...'']\<rparr>)"

text \<open>Lines 169-171 and line 172: what the loop body does after the dwell.\<close>

definition stageComplete :: "nat \<Rightarrow> State \<Rightarrow> State" where
  "stageComplete i s =
     s\<lparr>agents := mapAt i (\<lambda>a. a\<lparr>status := Complete, thinkingText := doneMarker\<rparr>) (agents s)\<rparr>"

definition completedLog :: "Agent list \<Rightarrow> nat \<Rightarrow> State \<Rightarrow> State" where
  "completedLog c i s =
     s\<lparr>allLogs := allLogs s @
          [icon (c ! i) @ '' '' @ agentNames (idA (c ! i)) @ '' task completed.'']\<rparr>"

text \<open>
  The coroutine, one synchronous stretch at a time. \<open>simLoop c rnd i now s\<close> is the \<open>for\<close>
  loop arriving at index \<open>i\<close>; \<open>simDwell t now s\<close> is the test of the \<open>while\<close> loop of task
  \<open>t\<close>, at its first entry and at every wake-up; \<open>now\<close> is what \<open>Date.now()\<close> returns
  during the stretch. The result is the new state and, when the coroutine goes to sleep
  again in \<open>await new Promise(r => setTimeout(r, 100))\<close>, the suspended task.
  A task whose index lies outside the captured array (none is ever created) dies at
  \<open>agents[i].icon\<close> of line 172, after line 169 has run.
\<close>

function simLoop :: "Agent list \<Rightarrow> (nat \<Rightarrow> nat) \<Rightarrow> nat \<Rightarrow> int \<Rightarrow> State \<Rightarrow> State \<times> SimTask option"
  and simDwell :: "SimTask \<Rightarrow> int \<Rightarrow> State \<Rightarrow> State \<times> SimTask option" where
  "simLoop c rnd i now s =
     (if i < length c then
        if \<not> isAnalyzingRef s then (simExit s, None)
        else simDwell \<lparr>cap = c, rand = rnd, sim_i = i, sim_start = now,
                       sim_waitTime = 2000 + int (rnd i)\<rparr> now (stageStart c i s)
      else (simExit s, None))"
| "simDwell t now s =
     (if now - sim_start t < sim_waitTime t \<and> isAnalyzingRef s then (s, Some t)
      else if \<not> isAnalyzingRef s then (simExit s, None)
      else if sim_i t < length (cap t)
           then simLoop (cap t) (rand t) (sim_i t + 1) now
                  (completedLog (cap t) (sim_i t) (stageComplete (sim_i t) s))
           else (stageComplete (sim_i t) s, None))"
  by pat_completeness auto
termination
  by (relation "measure (\<lambda>x. case x of
           Inl (c, rnd, i, now, s) \<Rightarrow> 2 * (length c - i) + 1
         | Inr (t, now, s) \<Rightarrow> 2 * (length (cap t) - sim_i t))") auto

text \<open>
  Line 187: \<open>simulateAgentProgress()\<close> runs up to its first \<open>await\<close>. \<open>c\<close> is the
  \<open>agents\<close> array of the render whose \<open>handleAnalyze\<close> was invoked.
\<close>

definition simulateAgentProgress :: "Agent list \<Rightarrow> (nat \<Rightarrow> nat) \<Rightarrow> int \<Rightarrow> State \<Rightarrow> State" where
  "simulateAgentProgress c rnd now s =
     (case simLoop c rnd 0 now s of
        (s', Some t) \<Rightarrow> s'\<lparr>sims := sims s' @ [t]\<rparr>
      | (s', None) \<Rightarrow> s')"

text \<open>The timer of the \<open>k\<close>-th sleeping simulator fires at time \<open>now\<close>.\<close>

definition simWake :: "nat \<Rightarrow> int \<Rightarrow> State \<Rightarrow> State" where
  "simWake k now s =
     (if k < length (sims s) then
        (case simDwell (sims s ! k) now s of
           (s', Some t) \<Rightarrow> s'\<lparr>sims := (sims s')[k := t]\<rparr>
         | (s', None) \<Rightarrow> s'\<lparr>sims := take k (sims s') @ drop (Suc k) (sims s')\<rparr>)
      else s)"

section \<open>The handlers\<close>

text \<open>Lines 180-184: the reset at the start of a run.\<close>

definition resetAgent :: "Agent \<Rightarrow> Agent" where
  "resetAgent a = a\<lparr>status := Pending, logs := [], thinkingText := []\<rparr>"

definition resetRun :: "State \<Rightarrow> State" where
  "resetRun s =
     (let s1 = s\<lparr>isAnalyzing := True\<rparr>;
          s2 = s1\<lparr>isAnalyzingRef := True\<rparr>;
          s3 = s2\<lparr>result := None\<rparr>;
          s4 = s3\<lparr>allLogs := []\<rparr>
      in s4\<lparr>agents := map resetAgent (agents s4)\<rparr>)"

text \<open>
  Lines 177-198: \<open>handleAnalyze\<close> up to the \<open>await fetch\<close>. \<open>rnd\<close> and \<open>now\<close> are what
  \<open>Math.random\<close> and \<open>Date.now\<close> give the simulator it starts.
\<close>

definition handleAnalyze :: "(nat \<Rightarrow> nat) \<Rightarrow> int \<Rightarrow> State \<Rightarrow> State" where
  "handleAnalyze rnd now s =
     (case fileSel s of
        None \<Rightarrow> s
      | Some f \<Rightarrow>
          if claimedAmount s = [] then s
          else
            (let s1 = simulateAgentProgress (agents s) rnd now (resetRun s)
             in s1\<lparr>requests := requests s1 @
                      [\<lparr>image_f = f, claimed_amount = claimedAmount s,
                        expected_bank = expectedBank s\<rparr>]\<rparr>))"

text \<open>The oldest request in flight ends with \<open>out\<close>: \<open>handleAnalyze\<close> resumes.\<close>

definition netArrive :: "outcome \<Rightarrow> State \<Rightarrow> State" where
  "netArrive out s =
     (case requests s of
        [] \<Rightarrow> s
      | r # rs \<Rightarrow> resume out (s\<lparr>requests := rs\<rparr>))"

text \<open>Lines 102-107: \<open>handleFileSelect\<close> (the preview is not modelled).\<close>

definition handleFileSelect :: "File \<Rightarrow> State \<Rightarrow> State" where
  "handleFileSelect f s =
     (let s1 = s\<lparr>fileSel := Some f\<rparr>;
          s2 = s1\<lparr>result := None\<rparr>;
          s3 = s2\<lparr>allLogs := []\<rparr>;
          s4 = s3\<lparr>currentAgentIndex := -1\<rparr>
      in s4\<lparr>agents := map resetAgent (agents s4)\<rparr>)"

text \<open>
  Lines 83-100: one tick of the 800 ms interval of the narration effect that was set up
  when \<open>currentAgentIndex\<close> was \<open>c\<close>, with its counter \<open>thoughtIndex\<close> at \<open>n\<close>. No interval
  exists for an index out of range.
\<close>

definition narrationTick :: "int \<Rightarrow> nat \<Rightarrow> State \<Rightarrow> State" where
  "narrationTick c n s =
     (if c < 0 \<or> c \<ge> int (length (agents s)) then s
      else (case AGENT_THINKING (idA (agents s ! nat c)) of
              None \<Rightarrow> s
            | Some thoughts \<Rightarrow>
                s\<lparr>agents := mapAt (nat c)
                     (\<lambda>a. a\<lparr>thinkingText := thoughts ! (n mod length thoughts)\<rparr>) (agents s)\<rparr>))"

section \<open>Events of a run\<close>

datatype event =
    SimWake nat int
  | NetArrive outcome
  | NarrationTick int nat
  | FileSelect File
  | SetClaimedAmount string

fun step :: "event \<Rightarrow> State \<Rightarrow> State" where
  "step (SimWake k now) s = simWake k now s"
| "step (NetArrive out) s = netArrive out s"
| "step (NarrationTick c n) s = narrationTick c n s"
| "step (FileSelect f) s = handleFileSelect f s"
| "step (SetClaimedAmount v) s = s\<lparr>claimedAmount := v\<rparr>"

definition run :: "event list \<Rightarrow> State \<Rightarrow> State" where
  "run evs s = fold step evs s"

text \<open>The events of the simulator side alone: timers of the dwell and of the narration.\<close>

fun timerEvent :: "event \<Rightarrow> bool" where
  "timerEvent (SimWake k now) = True"
| "timerEvent (NarrationTick c n) = True"
| "timerEvent e = False"

text \<open>
  The events of the simulator and of the reconciler that carry no log list of the backend:
  every timer, and the end of the request unless it is a success whose body has \<open>logs\<close>.
\<close>

fun keepsLog :: "event \<Rightarrow> bool" where
  "keepsLog (SimWake k now) = True"
| "keepsLog (NarrationTick c n) = True"
| "keepsLog (NetArrive out) =
     (case fetchResult out of Inl msg \<Rightarrow> True | Inr data \<Rightarrow> logs_b data = None)"
| "keepsLog e = False"

section \<open>The specification's wording of two rules\<close>



text \<open>
  Case-insensitive containment of a stage identifier in a name hint, as the specification
  words the matching rule: both sides are compared in lower case.
\<close>

definition containsCI :: "string \<Rightarrow> string \<Rightarrow> bool" where
  "containsCI hint ident = sublist (toLowerCase ident) (toLowerCase hint)"

section \<open>The stages that are running\<close>

definition runningCount :: "State \<Rightarrow> nat" where
  "runningCount s = length (filter (\<lambda>a. status a = Running) (agents s))"

text \<open>No stage other than the one at index \<open>k\<close> is running.\<close>

definition onlyRunningAt :: "nat \<Rightarrow> State \<Rightarrow> bool" where
  "onlyRunningAt k s =
     (\<forall>j < length (agents s). status (agents s ! j) = Running \<longrightarrow> j = k)"

text \<open>
  The invariant of a run with a single simulator: while it sleeps in the dwell of stage
  \<open>i\<close> no other stage is running, and once it is gone at most one stage is.
\<close>

definition oneSimulator :: "State \<Rightarrow> bool" where
  "oneSimulator s =
     (case sims s of
        [] \<Rightarrow> (\<exists>k. onlyRunningAt k s)
      | [t] \<Rightarrow> onlyRunningAt (sim_i t) s
      | _ \<Rightarrow> False)"

section \<open>Scenarios\<close>

text \<open>
  A file and an amount are entered, the analysis is started at time 0 with every dwell
  lasting 2500 ms; at 2500 ms the simulator has finished the first stage and dwells on
  the second.
\<close>

definition demoFile :: File where
  "demoFile = \<lparr>fileName = ''receipt.png'', fileType = ''image/png''\<rparr>"

definition demoReady :: State where
  "demoReady = run [FileSelect demoFile, SetClaimedAmount ''5000''] initialState"

definition demoStarted :: State where
  "demoStarted = handleAnalyze (\<lambda>k. 500) 0 demoReady"

definition demoMid :: State where
  "demoMid = run [SimWake 0 100, SimWake 0 2500] demoStarted"

text \<open>
  The request then fails while the simulator sleeps in the dwell of the second stage.
\<close>

definition demoMidFailed :: State where
  "demoMidFailed = run [NetArrive (Rejected ''Failed to fetch'')] demoMid"

text \<open>
  The analysis is started again 50 ms later, before the timer of the sleeping simulator
  has fired.
\<close>

definition demoRestarted :: State where
  "demoRestarted = handleAnalyze (\<lambda>k. 500) 2550 demoMidFailed"

text \<open>
  The sleeping simulator of the first run then wakes at 2600 ms, its first poll after the
  request has failed, and at 5000 ms, when its dwell on the second stage has elapsed.
\<close>

definition demoStalePoll :: State where
  "demoStalePoll = run [SimWake 0 2600] demoRestarted"

definition demoStaleResumed :: State where
  "demoStaleResumed = run [SimWake 0 2600, SimWake 0 5000] demoRestarted"

definition demoAnalysis :: AnalysisResult where
  "demoAnalysis =
     \<lparr>risk_score = 85, verdict = ''HIGH RISK'',
      flags = [\<lparr>layer = ''metadata'', severity = ''HIGH'',
                description = ''Editing software found'', confidence = 90\<rparr>],
      explanation = ''Edited receipt'', software_detected = Some ''Photoshop'',
      is_edited = True, font_consistency_score = 40, alignment_score = 55\<rparr>"

text \<open>
  Success bodies: two stage records and a log list; no stage list at all; the first
  without its log list. The raw text of a success response is never read and is
  abbreviated.
\<close>

definition demoBody :: Body where
  "demoBody =
     \<lparr>detail = None,
      agents_b = Some [\<lparr>ba_name = ''Agent META'', ba_logs = Some [''exif read'']\<rparr>,
                       \<lparr>ba_name = ''Agent Vision'', ba_logs = None\<rparr>],
      logs_b = Some [''backend log''],
      analysis = Some demoAnalysis\<rparr>"

definition demoBodyBare :: Body where
  "demoBodyBare =
     \<lparr>detail = None, agents_b = None, logs_b = None, analysis = Some demoAnalysis\<rparr>"

definition demoBodyNoLogs :: Body where
  "demoBodyNoLogs = demoBody\<lparr>logs_b := None\<rparr>"

definition okResponse :: "Body \<Rightarrow> Response" where
  "okResponse b =
     \<lparr>ok = True, http_status = 200, statusText = ''OK'', bodyText = ''{...}'',
      json = Object b\<rparr>"








section \<open>Basic facts\<close>

declare simLoop.simps [simp del] simDwell.simps [simp del] showNat.simps [simp del]

lemma length_mapAt [simp]: "length (mapAt i f xs) = length xs"
  by (simp add: mapAt_def)

lemma mapAt_upd: "mapAt i f xs = (if i < length xs then xs[i := f (xs ! i)] else xs)"
  by (auto simp: mapAt_def list_eq_iff_nth_eq nth_enumerate_eq nth_list_update)

lemma nth_mapAt: "j < length xs \<Longrightarrow> mapAt i f xs ! j = (if j = i then f (xs ! j) else xs ! j)"
  by (simp add: mapAt_upd nth_list_update)

lemma map_mapAt_same: "(\<And>a. g (f a) = g a) \<Longrightarrow> map g (mapAt i f xs) = map g xs"
  by (simp add: list_eq_iff_nth_eq nth_mapAt)

lemma includes_sublist: "includes_s s sub = sublist sub s"
  by (induction s) (auto simp: sublist_Cons_right)

lemma all_status_replicate:
  "\<forall>a\<in>set xs. status a = st \<Longrightarrow> map status xs = replicate (length xs) st"
  by (induction xs) auto

lemma simDwell_cancelled: "\<not> isAnalyzingRef s \<Longrightarrow> simDwell t now s = (simExit s, None)"
  by (simp add: simDwell.simps)

lemma simWake_cancelled:
  "\<not> isAnalyzingRef s \<Longrightarrow> k < length (sims s) \<Longrightarrow>
   simWake k now s = s\<lparr>currentAgentIndex := -1, sims := take k (sims s) @ drop (Suc k) (sims s)\<rparr>"
  by (simp add: simWake_def simDwell_cancelled simExit_def)

lemma narrationTick_frame:
  "map status (agents (narrationTick c n s)) = map status (agents s) \<and>
   map logs (agents (narrationTick c n s)) = map logs (agents s) \<and>
   map idA (agents (narrationTick c n s)) = map idA (agents s) \<and>
   allLogs (narrationTick c n s) = allLogs s \<and>
   result (narrationTick c n s) = result s \<and>
   isAnalyzingRef (narrationTick c n s) = isAnalyzingRef s \<and>
   sims (narrationTick c n s) = sims s \<and>
   requests (narrationTick c n s) = requests s"
  by (simp add: narrationTick_def map_mapAt_same split: option.splits)

lemma timer_step_quiet:
  assumes "\<not> isAnalyzingRef s" "timerEvent e"
  shows "agents (step e s) = agents s \<or> (\<exists>c n. e = NarrationTick c n)"
    and "map status (agents (step e s)) = map status (agents s)"
    and "map logs (agents (step e s)) = map logs (agents s)"
    and "allLogs (step e s) = allLogs s"
    and "result (step e s) = result s"
    and "\<not> isAnalyzingRef (step e s)"
  using assms
  by (cases e; cases "case e of SimWake k now \<Rightarrow> k < length (sims s) | _ \<Rightarrow> True";
      simp add: simWake_cancelled narrationTick_frame; simp add: simWake_def)+

lemma timer_run_quiet:
  assumes "\<not> isAnalyzingRef s" "\<forall>e\<in>set evs. timerEvent e"
  shows "map status (agents (run evs s)) = map status (agents s) \<and>
         map logs (agents (run evs s)) = map logs (agents s) \<and>
         allLogs (run evs s) = allLogs s \<and>
         result (run evs s) = result s \<and>
         \<not> isAnalyzingRef (run evs s)"
  using assms
proof (induction evs arbitrary: s)
  case Nil
  then show ?case by (simp add: run_def)
next
  case (Cons e evs)
  have e: "timerEvent e" and rest: "\<forall>x\<in>set evs. timerEvent x"
    using Cons.prems(2) by simp_all
  note q = timer_step_quiet[OF Cons.prems(1) e]
  have "run (e # evs) s = run evs (step e s)" by (simp add: run_def)
  with Cons.IH[OF q(6) rest] q show ?case by simp
qed

lemma fetchResult_failure_iff:
  "fetchResult out = Inl msg \<longleftrightarrow>
     out = Rejected msg \<or>
     (\<exists>r. out = Resolved r \<and> \<not> ok r \<and> msg = httpErrorMessage r) \<or>
     (\<exists>r. out = Resolved r \<and> ok r \<and> (json r = Throws msg \<or> json r = Null msg))"
  by (auto simp: fetchResult_def split: outcome.splits Parsed.splits)

lemma resume_failure:
  "fetchResult out = Inl msg \<Longrightarrow>
   agents (resume out s) =
     map (\<lambda>a. a\<lparr>status := Error, thinkingText := failedMarker,
                 logs := logs a @ [terminatedLine]\<rparr>) (agents s) \<and>
   allLogs (resume out s) = allLogs s @ [errorLine msg] \<and>
   result (resume out s) = result s \<and>
   \<not> isAnalyzingRef (resume out s) \<and> \<not> isAnalyzing (resume out s)"
  by (simp add: resume_def onFailure_def finallyBlock_def Let_def)

lemma simLoop_step:
  "simLoop c rnd i now s =
     (if i < length c \<and> isAnalyzingRef s
      then (stageStart c i s,
            Some \<lparr>cap = c, rand = rnd, sim_i = i, sim_start = now,
                  sim_waitTime = 2000 + int (rnd i)\<rparr>)
      else (simExit s, None))"
proof -
  have r: "isAnalyzingRef (stageStart c i s) = isAnalyzingRef s"
    by (simp add: stageStart_def Let_def)
  show ?thesis
    by (subst simLoop.simps) (simp add: simDwell.simps r)
qed

lemma simDwell_step:
  "simDwell t now s =
     (if \<not> isAnalyzingRef s then (simExit s, None)
      else if now - sim_start t < sim_waitTime t then (s, Some t)
      else if sim_i t < length (cap t)
           then simLoop (cap t) (rand t) (sim_i t + 1) now
                  (completedLog (cap t) (sim_i t) (stageComplete (sim_i t) s))
           else (stageComplete (sim_i t) s, None))"
  by (subst simDwell.simps) simp

lemma simLoop_allLogs: "prefix (allLogs s) (allLogs (fst (simLoop c rnd i now s)))"
  by (simp add: simLoop_step stageStart_def simExit_def Let_def)

lemma simDwell_allLogs: "prefix (allLogs s) (allLogs (fst (simDwell t now s)))"
proof -
  have "prefix (allLogs s) (allLogs (completedLog (cap t) (sim_i t) (stageComplete (sim_i t) s)))"
    by (simp add: completedLog_def stageComplete_def)
  then have "prefix (allLogs s)
      (allLogs (fst (simLoop (cap t) (rand t) (sim_i t + 1) now
                  (completedLog (cap t) (sim_i t) (stageComplete (sim_i t) s)))))"
    using simLoop_allLogs prefix_order.trans by blast
  then show ?thesis
    by (simp add: simDwell_step simExit_def stageComplete_def)
qed

lemma simulateAgentProgress_allLogs:
  "prefix (allLogs s) (allLogs (simulateAgentProgress c rnd now s))"
  using simLoop_allLogs[of s c rnd 0 now]
  by (auto simp: simulateAgentProgress_def split: prod.splits option.splits)

lemma simWake_allLogs: "prefix (allLogs s) (allLogs (simWake k now s))"
  using simDwell_allLogs[of s "sims s ! k" now]
  by (auto simp: simWake_def split: prod.splits option.splits)

lemma netArrive_failure_allLogs:
  "fetchResult out = Inl msg \<Longrightarrow> prefix (allLogs s) (allLogs (netArrive out s))"
  by (simp add: netArrive_def resume_failure split: list.splits)

lemma netArrive_success_allLogs:
  "fetchResult out = Inr data \<Longrightarrow>
   allLogs (netArrive out s) =
     (case logs_b data of
        Some l \<Rightarrow> if requests s = [] then allLogs s else l
      | None \<Rightarrow> allLogs s)"
  by (simp add: netArrive_def resume_def onSuccess_def finallyBlock_def Let_def
           split: list.splits option.splits)

lemma keepsLog_step: "keepsLog e \<Longrightarrow> prefix (allLogs s) (allLogs (step e s))"
proof (cases e)
  case (NetArrive out)
  assume k: "keepsLog e"
  show ?thesis
  proof (cases "fetchResult out")
    case (Inl msg)
    then show ?thesis using NetArrive by (simp add: netArrive_failure_allLogs)
  next
    case (Inr data)
    then show ?thesis using NetArrive k by (simp add: netArrive_success_allLogs)
  qed
qed (simp_all add: simWake_allLogs narrationTick_frame)

lemma simulateAgentProgress_index:
  "c \<noteq> [] \<Longrightarrow> isAnalyzingRef s \<Longrightarrow> currentAgentIndex (simulateAgentProgress c rnd now s) = 0"
  by (simp add: simulateAgentProgress_def simLoop_step stageStart_def Let_def)

lemma resume_success:
  "fetchResult out = Inr data \<Longrightarrow>
   agents (resume out s) =
     (case agents_b data of Some bas \<Rightarrow> map (reconcileAgent bas) (agents s) | None \<Rightarrow> agents s) \<and>
   result (resume out s) = analysis data \<and>
   \<not> isAnalyzingRef (resume out s) \<and> \<not> isAnalyzing (resume out s)"
  by (simp add: resume_def onSuccess_def finallyBlock_def Let_def split: option.splits)

lemma lower_includes_containsCI:
  "toLowerCase ident = ident \<Longrightarrow>
   includes_s (toLowerCase hint) ident = containsCI hint ident"
  by (simp add: includes_sublist containsCI_def)

lemma toLowerCase_stage_ids:
  "toLowerCase ''meta'' = ''meta''" "toLowerCase ''privacy'' = ''privacy''"
  "toLowerCase ''vision'' = ''vision''"
  by (simp_all add: toLowerCase_def lowerChar_def)

lemma stageComplete_nth:
  "i < length (agents s) \<Longrightarrow>
   status (agents (stageComplete i s) ! i) = Complete \<and>
   thinkingText (agents (stageComplete i s) ! i) = doneMarker"
  by (simp add: stageComplete_def nth_mapAt)

lemma stageStart_other:
  "j < length (agents s) \<Longrightarrow> j \<noteq> i \<Longrightarrow> agents (stageStart c i s) ! j = agents s ! j"
  by (simp add: stageStart_def Let_def nth_mapAt)

lemma simWake_dwell_over:
  assumes "k < length (sims s)" and "isAnalyzingRef s"
    and "\<not> now - sim_start (sims s ! k) < sim_waitTime (sims s ! k)"
    and "sim_i (sims s ! k) < length (cap (sims s ! k))"
  shows "simWake k now s =
     (let t = sims s ! k;
          s1 = completedLog (cap t) (sim_i t) (stageComplete (sim_i t) s)
      in if Suc (sim_i t) < length (cap t)
         then (stageStart (cap t) (Suc (sim_i t)) s1)
                \<lparr>sims := (sims s)[k := \<lparr>cap = cap t, rand = rand t, sim_i = Suc (sim_i t),
                                        sim_start = now,
                                        sim_waitTime = 2000 + int (rand t (Suc (sim_i t)))\<rparr>]\<rparr>
         else (simExit s1)\<lparr>sims := take k (sims s) @ drop (Suc k) (sims s)\<rparr>)"
  using assms
  by (simp add: simWake_def simDwell_step simLoop_step Let_def completedLog_def
        stageComplete_def stageStart_def simExit_def)

text \<open>
  No handler and no timer changes the identifier of a stage, and the three identifiers are
  in lower case.
\<close>

lemma simLoop_ids: "map idA (agents (fst (simLoop c rnd i now s))) = map idA (agents s)"
  by (simp add: simLoop_step stageStart_def simExit_def Let_def map_mapAt_same)

lemma simDwell_ids: "map idA (agents (fst (simDwell t now s))) = map idA (agents s)"
  by (simp add: simDwell_step simLoop_ids simExit_def completedLog_def stageComplete_def
        map_mapAt_same)

lemma simWake_ids: "map idA (agents (simWake k now s)) = map idA (agents s)"
  using simDwell_ids[of "sims s ! k" now s]
  by (auto simp: simWake_def split: prod.splits option.splits)

lemma reconcileAgent_id: "idA (reconcileAgent bas a) = idA a"
  by (simp add: reconcileAgent_def split: option.splits)

lemma netArrive_ids: "map idA (agents (netArrive out s)) = map idA (agents s)"
  by (simp add: netArrive_def resume_def onFailure_def onSuccess_def finallyBlock_def Let_def
        comp_def reconcileAgent_id split: list.splits sum.splits option.splits)

lemma step_ids: "map idA (agents (step e s)) = map idA (agents s)"
  by (cases e)
     (simp_all add: simWake_ids netArrive_ids narrationTick_frame handleFileSelect_def
        Let_def resetAgent_def comp_def)

lemma run_ids: "map idA (agents (run evs s)) = map idA (agents s)"
proof (induction evs arbitrary: s)
  case Nil
  then show ?case by (simp add: run_def)
next
  case (Cons e evs)
  have "run (e # evs) s = run evs (step e s)" by (simp add: run_def)
  then show ?case using Cons.IH[of "step e s"] by (simp add: step_ids)
qed

lemma handleAnalyze_ids: "map idA (agents (handleAnalyze rnd now s)) = map idA (agents s)"
proof -
  have "map idA (agents (simulateAgentProgress c rnd now (resetRun s))) = map idA (agents s)"
    for c
    using simLoop_ids[of c rnd 0 now "resetRun s"]
    by (auto simp: simulateAgentProgress_def resetRun_def Let_def resetAgent_def comp_def
          split: prod.splits option.splits)
  then show ?thesis
    by (simp add: handleAnalyze_def Let_def split: option.splits)
qed

lemma initial_ids_lower:
  assumes "map idA (agents s) = map idA initialAgents" and "j < length (agents s)"
  shows "toLowerCase (idA (agents s ! j)) = idA (agents s ! j)"
proof -
  have "idA (agents s ! j) \<in> set (map idA (agents s))"
    using assms(2) by simp
  then have "idA (agents s ! j) \<in> set [''meta'', ''privacy'', ''vision'']"
    unfolding assms(1) by (simp add: initialAgents_def)
  then show ?thesis
    using toLowerCase_stage_ids by auto
qed

section \<open>Failure of the request (C1)\<close>

text \<open>
  Claim C1. Whenever the request ends in a failure (the fetch rejects, the status is not a
  success status, or the body of a success response does not parse), the state the run
  ends in, also after any further timer of the simulator or of the narration has fired,
  has every stage in status \<open>Error\<close> whatever the simulator had done before; every
  stage's own log is the old one with the one failure line appended; and the global log is
  the old one with the one error line appended.
\<close>

theorem failure_marks_every_stage:
  assumes "fetchResult out = Inl msg"
    and "requests s \<noteq> []"
    and "\<forall>e\<in>set evs. timerEvent e"
  shows "(\<forall>a\<in>set (agents (run (NetArrive out # evs) s)). status a = Error) \<and>
         length (agents (run (NetArrive out # evs) s)) = length (agents s) \<and>
         map logs (agents (run (NetArrive out # evs) s)) =
           map (\<lambda>a. logs a @ [terminatedLine]) (agents s) \<and>
         allLogs (run (NetArrive out # evs) s) = allLogs s @ [errorLine msg]"
proof -
  obtain r rs where rq: "requests s = r # rs"
    using assms(2) by (cases "requests s") auto
  define s1 where "s1 = resume out (s\<lparr>requests := rs\<rparr>)"
  have st: "run (NetArrive out # evs) s = run evs s1"
    by (simp add: run_def netArrive_def rq s1_def)
  have f: "agents s1 = map (\<lambda>a. a\<lparr>status := Error, thinkingText := failedMarker,
                 logs := logs a @ [terminatedLine]\<rparr>) (agents s)"
    "allLogs s1 = allLogs s @ [errorLine msg]" "\<not> isAnalyzingRef s1"
    using resume_failure[OF assms(1), of "s\<lparr>requests := rs\<rparr>"] by (simp_all add: s1_def)
  have q: "map status (agents (run evs s1)) = map status (agents s1)"
    "map logs (agents (run evs s1)) = map logs (agents s1)"
    "allLogs (run evs s1) = allLogs s1"
    using timer_run_quiet[OF f(3) assms(3)] by simp_all
  have a: "map status (agents (run evs s1)) = map (\<lambda>a. Error) (agents s)"
    using q(1) f(1) by (simp add: comp_def)
  have "\<forall>x\<in>set (map status (agents (run evs s1))). x = Error"
    unfolding a by simp
  then have 1: "\<forall>a\<in>set (agents (run evs s1)). status a = Error" by simp
  have 2: "length (agents (run evs s1)) = length (agents s)"
    using arg_cong[OF a, of length] by simp
  have 3: "map logs (agents (run evs s1)) = map (\<lambda>a. logs a @ [terminatedLine]) (agents s)"
    using q(2) f(1) by (simp add: comp_def)
  show ?thesis unfolding st using 1 2 3 q(3) f(2) by simp
qed

theorem failure_marks_every_stage_witness:
  "map status (agents demoMid) = [Complete, Running, Pending] \<and>
   map status (agents (run [NetArrive (Rejected ''Failed to fetch''), SimWake 0 2600] demoMid))
     = [Error, Error, Error] \<and>
   allLogs (run [NetArrive (Rejected ''Failed to fetch''), SimWake 0 2600] demoMid)
     = allLogs demoMid @ [errorLine ''Failed to fetch'']"
proof -
  have h1: "fetchResult (Rejected ''Failed to fetch'') = Inl ''Failed to fetch''"
    by (simp add: fetchResult_def)
  have h2: "requests demoMid \<noteq> []" by code_simp
  have h3: "\<forall>e\<in>set [SimWake 0 2600]. timerEvent e" by simp
  have m: "map status (agents demoMid) = [Complete, Running, Pending]" by code_simp
  have l: "length (agents demoMid) = 3" by code_simp
  note t = failure_marks_every_stage[OF h1 h2 h3]
  have e: "map status (agents (run [NetArrive (Rejected ''Failed to fetch''), SimWake 0 2600] demoMid))
     = replicate 3 Error"
    using all_status_replicate[OF conjunct1[OF t]] conjunct1[OF conjunct2[OF t]] l by simp
  show ?thesis
    using m e conjunct2[OF conjunct2[OF conjunct2[OF t]]] by (simp add: numeral_3_eq_3)
qed

section \<open>The guard of \<open>handleAnalyze\<close> (C10)\<close>

text \<open>
  Claim C10. With no file selected or an empty amount, \<open>handleAnalyze\<close> returns the
  state it was given: the stages, the global log and the result are the same, no simulator
  has been put to sleep and no request has been issued.
\<close>

theorem analyze_without_input_is_noop:
  "fileSel s = None \<or> claimedAmount s = [] \<Longrightarrow> handleAnalyze rnd now s = s"
  by (auto simp: handleAnalyze_def split: option.splits)

theorem analyze_without_input_is_noop_witness:
  "handleAnalyze (\<lambda>k. 0) 0 initialState = initialState \<and>
   handleAnalyze (\<lambda>k. 0) 0 (handleFileSelect demoFile initialState)
     = handleFileSelect demoFile initialState"
proof -
  have a: "fileSel initialState = None \<or> claimedAmount initialState = []"
    by (simp add: initialState_def)
  have b: "fileSel (handleFileSelect demoFile initialState) = None \<or>
           claimedAmount (handleFileSelect demoFile initialState) = []"
    by (simp add: initialState_def handleFileSelect_def)
  show ?thesis
    using analyze_without_input_is_noop[OF a] analyze_without_input_is_noop[OF b] by simp
qed

section \<open>The global log (C6)\<close>

text \<open>
  Claim C6, as the code has it. Every timer of the simulator and of the narration, the
  start of the simulator, the failure path of the reconciler and its success path for a
  body without \<open>logs\<close> leave the global log a prefix of what it becomes: lines are
  only appended and keep their index. A success whose body has \<open>logs\<close> replaces the
  global log by that list.
\<close>

theorem global_log_append_only:
  "((\<forall>e\<in>set evs. keepsLog e) \<longrightarrow> prefix (allLogs s) (allLogs (run evs s))) \<and>
   prefix (allLogs s) (allLogs (simulateAgentProgress c rnd now s)) \<and>
   (fetchResult out = Inr data \<and> logs_b data = Some l \<and> requests s \<noteq> [] \<longrightarrow>
      allLogs (run [NetArrive out] s) = l)"
proof (intro conjI)
  show "(\<forall>e\<in>set evs. keepsLog e) \<longrightarrow> prefix (allLogs s) (allLogs (run evs s))"
  proof (induction evs arbitrary: s)
    case Nil
    then show ?case by (simp add: run_def)
  next
    case (Cons e evs)
    show ?case
    proof
      assume a: "\<forall>x\<in>set (e # evs). keepsLog x"
      then have "prefix (allLogs s) (allLogs (step e s))" by (simp add: keepsLog_step)
      moreover have "prefix (allLogs (step e s)) (allLogs (run evs (step e s)))"
        using Cons.IH a by simp
      ultimately show "prefix (allLogs s) (allLogs (run (e # evs) s))"
        by (simp add: run_def)
    qed
  qed
  show "prefix (allLogs s) (allLogs (simulateAgentProgress c rnd now s))"
    by (rule simulateAgentProgress_allLogs)
  show "fetchResult out = Inr data \<and> logs_b data = Some l \<and> requests s \<noteq> [] \<longrightarrow>
     allLogs (run [NetArrive out] s) = l"
    by (simp add: run_def netArrive_success_allLogs)
qed

theorem global_log_append_only_witness:
  "prefix (allLogs demoStarted)
     (allLogs (run [SimWake 0 100, SimWake 0 2500, NarrationTick 1 0,
                    NetArrive (Resolved (okResponse demoBodyNoLogs)), SimWake 0 2600]
                 demoStarted)) \<and>
   allLogs (run [NetArrive (Resolved (okResponse demoBody))] demoMid) = [''backend log'']"
proof -
  have k: "\<forall>e\<in>set [SimWake 0 100, SimWake 0 2500, NarrationTick 1 0,
                    NetArrive (Resolved (okResponse demoBodyNoLogs)), SimWake 0 2600].
             keepsLog e"
    by (simp add: fetchResult_def okResponse_def demoBodyNoLogs_def demoBody_def)
  have h: "fetchResult (Resolved (okResponse demoBody)) = Inr demoBody \<and>
           logs_b demoBody = Some [''backend log''] \<and> requests demoMid \<noteq> []"
    by code_simp
  note t = global_log_append_only[of _ demoStarted _ _ _ "Resolved (okResponse demoBody)" demoBody
             "[''backend log'']"]
  note t2 = global_log_append_only[of _ demoMid _ _ _ "Resolved (okResponse demoBody)" demoBody
             "[''backend log'']"]
  from conjunct1[OF t] k conjunct2[OF conjunct2[OF t2]] h show ?thesis by blast
qed

text \<open>
  The claim as stated (every mutation by the reconciler only appends) fails on a success
  body with \<open>logs\<close>: the three lines the simulator had written are gone.
\<close>

theorem global_log_replaced_counterexample:
  "allLogs (run [NetArrive (Resolved (okResponse demoBody))] demoMid) = [''backend log''] \<and>
   length (allLogs demoMid) = 3 \<and>
   \<not> prefix (allLogs demoMid)
       (allLogs (run [NetArrive (Resolved (okResponse demoBody))] demoMid))"
  by code_simp

section \<open>The message of a non-success response (C7)\<close>




section \<open>The reset at the start of a run (C5)\<close>

text \<open>
  Claim C5, as the code has it. Whatever the state before, the reset that \<open>handleAnalyze\<close>
  begins a run with leaves every stage \<open>Pending\<close> with empty logs and empty narration,
  the global log empty and no result stored. It does not write \<open>currentAgentIndex\<close>,
  which keeps the value it had; the run is the simulator started on the reset state, and
  the simulator's first stretch sets the index to 0.
\<close>

theorem new_run_resets_state:
  "map status (agents (resetRun s)) = replicate (length (agents s)) Pending \<and>
   map logs (agents (resetRun s)) = replicate (length (agents s)) [] \<and>
   map thinkingText (agents (resetRun s)) = replicate (length (agents s)) [] \<and>
   map idA (agents (resetRun s)) = map idA (agents s) \<and>
   allLogs (resetRun s) = [] \<and>
   result (resetRun s) = None \<and>
   currentAgentIndex (resetRun s) = currentAgentIndex s \<and>
   (fileSel s = Some f \<and> claimedAmount s \<noteq> [] \<longrightarrow>
      handleAnalyze rnd now s =
        (simulateAgentProgress (agents s) rnd now (resetRun s))
          \<lparr>requests := requests (simulateAgentProgress (agents s) rnd now (resetRun s)) @
             [\<lparr>image_f = f, claimed_amount = claimedAmount s,
               expected_bank = expectedBank s\<rparr>]\<rparr>) \<and>
   (fileSel s = Some f \<and> claimedAmount s \<noteq> [] \<and> agents s \<noteq> [] \<longrightarrow>
      currentAgentIndex (handleAnalyze rnd now s) = 0)"
proof -
  have r: "isAnalyzingRef (resetRun s)" by (simp add: resetRun_def Let_def)
  have 1: "map status (agents (resetRun s)) = replicate (length (agents s)) Pending"
    by (simp add: resetRun_def Let_def resetAgent_def comp_def map_replicate_const)
  have 2: "map logs (agents (resetRun s)) = replicate (length (agents s)) []"
    by (simp add: resetRun_def Let_def resetAgent_def comp_def map_replicate_const)
  have 3: "map thinkingText (agents (resetRun s)) = replicate (length (agents s)) []"
    by (simp add: resetRun_def Let_def resetAgent_def comp_def map_replicate_const)
  have 4: "map idA (agents (resetRun s)) = map idA (agents s)"
    by (simp add: resetRun_def Let_def resetAgent_def comp_def)
  have 5: "allLogs (resetRun s) = [] \<and> result (resetRun s) = None \<and>
           currentAgentIndex (resetRun s) = currentAgentIndex s"
    by (simp add: resetRun_def Let_def)
  have 6: "fileSel s = Some f \<and> claimedAmount s \<noteq> [] \<longrightarrow>
      handleAnalyze rnd now s =
        (simulateAgentProgress (agents s) rnd now (resetRun s))
          \<lparr>requests := requests (simulateAgentProgress (agents s) rnd now (resetRun s)) @
             [\<lparr>image_f = f, claimed_amount = claimedAmount s,
               expected_bank = expectedBank s\<rparr>]\<rparr>"
    by (simp add: handleAnalyze_def Let_def)
  have 7: "fileSel s = Some f \<and> claimedAmount s \<noteq> [] \<and> agents s \<noteq> [] \<longrightarrow>
      currentAgentIndex (handleAnalyze rnd now s) = 0"
    using simulateAgentProgress_index[OF _ r, of "agents s" rnd now]
    by (simp add: handleAnalyze_def Let_def)
  show ?thesis using 1 2 3 4 5 6 7 by blast
qed

theorem new_run_resets_state_witness:
  "map status (agents demoMidFailed) = [Error, Error, Error] \<and>
   map status (agents (resetRun demoMidFailed)) = [Pending, Pending, Pending] \<and>
   map logs (agents (resetRun demoMidFailed)) = [[], [], []] \<and>
   allLogs (resetRun demoMidFailed) = [] \<and>
   currentAgentIndex (resetRun demoMidFailed) = currentAgentIndex demoMidFailed \<and>
   currentAgentIndex (handleAnalyze (\<lambda>k. 500) 2550 demoMidFailed) = 0"
proof -
  have l: "length (agents demoMidFailed) = 3" by code_simp
  have m: "map status (agents demoMidFailed) = [Error, Error, Error]" by code_simp
  have g: "fileSel demoMidFailed = Some demoFile \<and> claimedAmount demoMidFailed \<noteq> [] \<and>
           agents demoMidFailed \<noteq> []"
    by code_simp
  note t = new_run_resets_state[of demoMidFailed demoFile "\<lambda>k. 500" 2550]
  have a: "currentAgentIndex (handleAnalyze (\<lambda>k. 500) 2550 demoMidFailed) = 0"
    using t g by blast
  have b: "map status (agents (resetRun demoMidFailed)) = [Pending, Pending, Pending]"
    using conjunct1[OF t] l by (simp add: numeral_3_eq_3)
  have c: "map logs (agents (resetRun demoMidFailed)) = [[], [], []]"
    using conjunct1[OF conjunct2[OF t]] l by (simp add: numeral_3_eq_3)
  have d: "allLogs (resetRun demoMidFailed) = [] \<and>
           currentAgentIndex (resetRun demoMidFailed) = currentAgentIndex demoMidFailed"
    using t by blast
  show ?thesis using m a b c d by blast
qed

text \<open>
  The claim as stated (the index is "none" when the run begins) fails when the analysis
  is started again after the request has failed and before the sleeping simulator has
  woken: the button is enabled, the index is still 1, and the reset leaves it there.
\<close>

theorem new_run_keeps_index_counterexample:
  "isAnalyzing demoMidFailed = False \<and>
   fileSel demoMidFailed = Some demoFile \<and>
   claimedAmount demoMidFailed = ''5000'' \<and>
   currentAgentIndex demoMidFailed = 1 \<and>
   currentAgentIndex (resetRun demoMidFailed) = 1 \<and>
   currentAgentIndex (resetRun demoMidFailed) \<noteq> -1"
  by code_simp

section \<open>Success of the request (C2, C9)\<close>

text \<open>
  Claim C2. The request ends with a success body that has a stage list \<open>bas\<close>. Take any
  stage (its identifier is in lower case, as the three identifiers are). In the state the
  run ends in, also after any further timer has fired: if the identifier is contained,
  case-insensitively, in the name of some record of the list, the stage is \<open>Complete\<close>
  and its logs are those of the first such record (none if the record has no logs); if no
  record matches, the stage has the status and the logs it had when the body arrived.
\<close>

theorem success_reconciles_matching_stages:
  assumes "fetchResult out = Inr data"
    and "agents_b data = Some bas"
    and "requests s \<noteq> []"
    and "\<forall>e\<in>set evs. timerEvent e"
    and "j < length (agents s)"
    and "toLowerCase (idA (agents s ! j)) = idA (agents s ! j)"
  shows "length (agents (run (NetArrive out # evs) s)) = length (agents s) \<and>
         (case find (\<lambda>ba. containsCI (ba_name ba) (idA (agents s ! j))) bas of
            Some ba \<Rightarrow>
              status (agents (run (NetArrive out # evs) s) ! j) = Complete \<and>
              logs (agents (run (NetArrive out # evs) s) ! j) =
                (case ba_logs ba of Some l \<Rightarrow> l | None \<Rightarrow> [])
          | None \<Rightarrow>
              status (agents (run (NetArrive out # evs) s) ! j) = status (agents s ! j) \<and>
              logs (agents (run (NetArrive out # evs) s) ! j) = logs (agents s ! j)) \<and>
         ((find (\<lambda>ba. containsCI (ba_name ba) (idA (agents s ! j))) bas = None) =
            (\<not> (\<exists>ba\<in>set bas. containsCI (ba_name ba) (idA (agents s ! j)))))"
proof -
  let ?a = "agents s ! j"
  obtain r rs where rq: "requests s = r # rs"
    using assms(3) by (cases "requests s") auto
  define s1 where "s1 = resume out (s\<lparr>requests := rs\<rparr>)"
  have st: "run (NetArrive out # evs) s = run evs s1"
    by (simp add: run_def netArrive_def rq s1_def)
  have ag: "agents s1 = map (reconcileAgent bas) (agents s)" and nr: "\<not> isAnalyzingRef s1"
    using resume_success[OF assms(1), of "s\<lparr>requests := rs\<rparr>"] assms(2)
    by (simp_all add: s1_def)
  have q: "map status (agents (run evs s1)) = map status (agents s1)"
    "map logs (agents (run evs s1)) = map logs (agents s1)"
    using timer_run_quiet[OF nr assms(4)] by simp_all
  have len: "length (agents (run evs s1)) = length (agents s)"
    using arg_cong[OF q(1), of length] ag by simp
  have js: "j < length (agents (run evs s1))" "j < length (agents s1)"
    using len assms(5) ag by simp_all
  have s_eq: "status (agents (run evs s1) ! j) = status (reconcileAgent bas ?a)"
    using arg_cong[OF q(1), of "\<lambda>xs. xs ! j"] js ag assms(5) by simp
  have l_eq: "logs (agents (run evs s1) ! j) = logs (reconcileAgent bas ?a)"
    using arg_cong[OF q(2), of "\<lambda>xs. xs ! j"] js ag assms(5) by simp
  have f: "find (\<lambda>ba. includes_s (toLowerCase (ba_name ba)) (idA ?a)) bas =
           find (\<lambda>ba. containsCI (ba_name ba) (idA ?a)) bas"
    using lower_includes_containsCI[OF assms(6)] by simp
  have m: "case find (\<lambda>ba. containsCI (ba_name ba) (idA ?a)) bas of
            Some ba \<Rightarrow>
              status (reconcileAgent bas ?a) = Complete \<and>
              logs (reconcileAgent bas ?a) = (case ba_logs ba of Some l \<Rightarrow> l | None \<Rightarrow> [])
          | None \<Rightarrow>
              status (reconcileAgent bas ?a) = status ?a \<and>
              logs (reconcileAgent bas ?a) = logs ?a"
    by (simp add: reconcileAgent_def f split: option.splits)
  have n: "(find (\<lambda>ba. containsCI (ba_name ba) (idA ?a)) bas = None) =
            (\<not> (\<exists>ba\<in>set bas. containsCI (ba_name ba) (idA ?a)))"
    by (auto simp: find_None_iff)
  show ?thesis unfolding st s_eq l_eq using len m n by (intro conjI)
qed

theorem success_reconciles_matching_stages_witness:
  "map status (agents demoMid) = [Complete, Running, Pending] \<and>
   status (agents (run [NetArrive (Resolved (okResponse demoBody)), SimWake 0 2600] demoMid) ! 0)
     = Complete \<and>
   logs (agents (run [NetArrive (Resolved (okResponse demoBody)), SimWake 0 2600] demoMid) ! 0)
     = [''exif read''] \<and>
   status (agents (run [NetArrive (Resolved (okResponse demoBody)), SimWake 0 2600] demoMid) ! 1)
     = Running \<and>
   logs (agents (run [NetArrive (Resolved (okResponse demoBody)), SimWake 0 2600] demoMid) ! 1)
     = [] \<and>
   status (agents (run [NetArrive (Resolved (okResponse demoBody)), SimWake 0 2600] demoMid) ! 2)
     = Complete"
proof -
  have h1: "fetchResult (Resolved (okResponse demoBody)) = Inr demoBody"
    by (simp add: fetchResult_def okResponse_def)
  have h2: "agents_b demoBody = Some [\<lparr>ba_name = ''Agent META'', ba_logs = Some [''exif read'']\<rparr>,
                       \<lparr>ba_name = ''Agent Vision'', ba_logs = None\<rparr>]"
    by (simp add: demoBody_def)
  have h3: "requests demoMid \<noteq> []" by code_simp
  have h4: "\<forall>e\<in>set [SimWake 0 2600]. timerEvent e" by simp
  have j: "0 < length (agents demoMid)" "1 < length (agents demoMid)" "2 < length (agents demoMid)"
    by code_simp+
  have i: "idA (agents demoMid ! 0) = ''meta''" "idA (agents demoMid ! 1) = ''privacy''"
    "idA (agents demoMid ! 2) = ''vision''"
    by code_simp+
  have lo: "toLowerCase (idA (agents demoMid ! 0)) = idA (agents demoMid ! 0)"
    "toLowerCase (idA (agents demoMid ! 1)) = idA (agents demoMid ! 1)"
    "toLowerCase (idA (agents demoMid ! 2)) = idA (agents demoMid ! 2)"
    unfolding i by (rule toLowerCase_stage_ids)+
  have f: "find (\<lambda>ba. containsCI (ba_name ba) ''meta'')
             [\<lparr>ba_name = ''Agent META'', ba_logs = Some [''exif read'']\<rparr>,
              \<lparr>ba_name = ''Agent Vision'', ba_logs = None\<rparr>]
           = Some \<lparr>ba_name = ''Agent META'', ba_logs = Some [''exif read'']\<rparr>"
    "find (\<lambda>ba. containsCI (ba_name ba) ''privacy'')
             [\<lparr>ba_name = ''Agent META'', ba_logs = Some [''exif read'']\<rparr>,
              \<lparr>ba_name = ''Agent Vision'', ba_logs = None\<rparr>]
           = None"
    "find (\<lambda>ba. containsCI (ba_name ba) ''vision'')
             [\<lparr>ba_name = ''Agent META'', ba_logs = Some [''exif read'']\<rparr>,
              \<lparr>ba_name = ''Agent Vision'', ba_logs = None\<rparr>]
           = Some \<lparr>ba_name = ''Agent Vision'', ba_logs = None\<rparr>"
    by code_simp+
  have m: "map status (agents demoMid) = [Complete, Running, Pending]" by code_simp
  have o: "status (agents demoMid ! 1) = Running" "logs (agents demoMid ! 1) = []"
    by code_simp+
  note t0 = success_reconciles_matching_stages[OF h1 h2 h3 h4 j(1) lo(1)]
  note t1 = success_reconciles_matching_stages[OF h1 h2 h3 h4 j(2) lo(2)]
  note t2 = success_reconciles_matching_stages[OF h1 h2 h3 h4 j(3) lo(3)]
  have a0: "status (agents (run [NetArrive (Resolved (okResponse demoBody)), SimWake 0 2600] demoMid) ! 0)
     = Complete \<and>
   logs (agents (run [NetArrive (Resolved (okResponse demoBody)), SimWake 0 2600] demoMid) ! 0)
     = [''exif read'']"
    using conjunct1[OF conjunct2[OF t0]] unfolding i f by simp
  have a1: "status (agents (run [NetArrive (Resolved (okResponse demoBody)), SimWake 0 2600] demoMid) ! 1)
     = Running \<and>
   logs (agents (run [NetArrive (Resolved (okResponse demoBody)), SimWake 0 2600] demoMid) ! 1)
     = []"
    using conjunct1[OF conjunct2[OF t1]] o unfolding i f by simp
  have a2: "status (agents (run [NetArrive (Resolved (okResponse demoBody)), SimWake 0 2600] demoMid) ! 2)
     = Complete"
    using conjunct1[OF conjunct2[OF t2]] unfolding i f by simp
  show ?thesis using m a0 a1 a2 by blast
qed

text \<open>
  Claim C9. The request ends with a success body that has no stage list. The reconciler
  leaves the whole array of stages as it was (status, narration and logs) and stores the
  \<open>analysis\<close> of the body as the result; and whatever timers fire afterwards, every
  stage keeps the status and the logs it had, so that a stage found \<open>Running\<close> stays
  \<open>Running\<close>.
\<close>

theorem success_without_stage_list_keeps_stages:
  assumes "fetchResult out = Inr data"
    and "agents_b data = None"
    and "requests s \<noteq> []"
    and "\<forall>e\<in>set evs. timerEvent e"
  shows "agents (run [NetArrive out] s) = agents s \<and>
         result (run [NetArrive out] s) = analysis data \<and>
         map status (agents (run (NetArrive out # evs) s)) = map status (agents s) \<and>
         map logs (agents (run (NetArrive out # evs) s)) = map logs (agents s) \<and>
         result (run (NetArrive out # evs) s) = analysis data"
proof -
  obtain r rs where rq: "requests s = r # rs"
    using assms(3) by (cases "requests s") auto
  define s1 where "s1 = resume out (s\<lparr>requests := rs\<rparr>)"
  have st: "run (NetArrive out # evs) s = run evs s1" "run [NetArrive out] s = s1"
    by (simp_all add: run_def netArrive_def rq s1_def)
  have ag: "agents s1 = agents s" and rs1: "result s1 = analysis data"
    and nr: "\<not> isAnalyzingRef s1"
    using resume_success[OF assms(1), of "s\<lparr>requests := rs\<rparr>"] assms(2)
    by (simp_all add: s1_def)
  have q: "map status (agents (run evs s1)) = map status (agents s1)"
    "map logs (agents (run evs s1)) = map logs (agents s1)"
    "result (run evs s1) = result s1"
    using timer_run_quiet[OF nr assms(4)] by simp_all
  show ?thesis unfolding st using ag rs1 q by simp
qed

theorem success_without_stage_list_keeps_stages_witness:
  "map status (agents demoMid) = [Complete, Running, Pending] \<and>
   agents (run [NetArrive (Resolved (okResponse demoBodyBare))] demoMid) = agents demoMid \<and>
   map status (agents (run [NetArrive (Resolved (okResponse demoBodyBare)),
                            SimWake 0 2600, NarrationTick 1 3] demoMid))
     = [Complete, Running, Pending] \<and>
   result (run [NetArrive (Resolved (okResponse demoBodyBare)),
                SimWake 0 2600, NarrationTick 1 3] demoMid) = Some demoAnalysis"
proof -
  have h1: "fetchResult (Resolved (okResponse demoBodyBare)) = Inr demoBodyBare"
    by (simp add: fetchResult_def okResponse_def)
  have h2: "agents_b demoBodyBare = None" by (simp add: demoBodyBare_def)
  have h3: "requests demoMid \<noteq> []" by code_simp
  have h4: "\<forall>e\<in>set [SimWake 0 2600, NarrationTick 1 3]. timerEvent e" by simp
  have m: "map status (agents demoMid) = [Complete, Running, Pending]" by code_simp
  have a: "analysis demoBodyBare = Some demoAnalysis" by (simp add: demoBodyBare_def)
  note t = success_without_stage_list_keeps_stages[OF h1 h2 h3 h4]
  show ?thesis using t m a by simp
qed

section \<open>One wake-up of the simulator\<close>

text \<open>
  One wake-up of a simulator sleeping in the dwell of stage \<open>i\<close>, by what it finds. If
  the flag is cleared, the loop is left: the stages and the global log are untouched (stage
  \<open>i\<close> is not completed, no "task completed" line is written, no later stage is
  started), the index is reset to "none" and the coroutine is gone. If the flag is set and
  the dwell has not elapsed, nothing changes. If the flag is set and the dwell has elapsed,
  stage \<open>i\<close> becomes \<open>Complete\<close> with the done marker as its narration; then either
  the next stage is entered, or, after the last stage, the index is reset to "none" and
  the coroutine is gone.
\<close>

lemma simulator_dwell_outcomes:
  assumes "k < length (sims s)"
  shows "(\<not> isAnalyzingRef s \<longrightarrow>
            simWake k now s =
              s\<lparr>currentAgentIndex := -1, sims := take k (sims s) @ drop (Suc k) (sims s)\<rparr>) \<and>
         (isAnalyzingRef s \<and> now - sim_start (sims s ! k) < sim_waitTime (sims s ! k) \<longrightarrow>
            simWake k now s = s) \<and>
         (isAnalyzingRef s \<and> \<not> now - sim_start (sims s ! k) < sim_waitTime (sims s ! k) \<and>
          sim_i (sims s ! k) < length (cap (sims s ! k)) \<and>
          sim_i (sims s ! k) < length (agents s) \<longrightarrow>
            status (agents (simWake k now s) ! sim_i (sims s ! k)) = Complete \<and>
            thinkingText (agents (simWake k now s) ! sim_i (sims s ! k)) = doneMarker \<and>
            (if Suc (sim_i (sims s ! k)) < length (cap (sims s ! k))
             then currentAgentIndex (simWake k now s) = int (Suc (sim_i (sims s ! k))) \<and>
                  length (sims (simWake k now s)) = length (sims s) \<and>
                  sim_i (sims (simWake k now s) ! k) = Suc (sim_i (sims s ! k))
             else currentAgentIndex (simWake k now s) = -1 \<and>
                  sims (simWake k now s) = take k (sims s) @ drop (Suc k) (sims s)))"
proof (intro conjI impI)
  assume "\<not> isAnalyzingRef s"
  then show "simWake k now s =
      s\<lparr>currentAgentIndex := -1, sims := take k (sims s) @ drop (Suc k) (sims s)\<rparr>"
    using assms by (rule simWake_cancelled)
next
  assume "isAnalyzingRef s \<and> now - sim_start (sims s ! k) < sim_waitTime (sims s ! k)"
  then show "simWake k now s = s"
    using assms by (simp add: simWake_def simDwell_step)
next
  let ?t = "sims s ! k"
  let ?i = "sim_i ?t"
  let ?s1 = "completedLog (cap ?t) ?i (stageComplete ?i s)"
  assume a: "isAnalyzingRef s \<and> \<not> now - sim_start ?t < sim_waitTime ?t \<and>
             ?i < length (cap ?t) \<and> ?i < length (agents s)"
  have w: "simWake k now s =
     (if Suc ?i < length (cap ?t)
      then (stageStart (cap ?t) (Suc ?i) ?s1)
             \<lparr>sims := (sims s)[k := \<lparr>cap = cap ?t, rand = rand ?t, sim_i = Suc ?i,
                                     sim_start = now,
                                     sim_waitTime = 2000 + int (rand ?t (Suc ?i))\<rparr>]\<rparr>
      else (simExit ?s1)\<lparr>sims := take k (sims s) @ drop (Suc k) (sims s)\<rparr>)"
    using simWake_dwell_over[OF assms, of now] a by (simp add: Let_def)
  have c: "status (agents ?s1 ! ?i) = Complete \<and> thinkingText (agents ?s1 ! ?i) = doneMarker"
    using stageComplete_nth[of ?i s] a by (simp add: completedLog_def)
  have l: "?i < length (agents ?s1)"
    using a by (simp add: completedLog_def stageComplete_def)
  have n: "agents (stageStart (cap ?t) (Suc ?i) ?s1) ! ?i = agents ?s1 ! ?i"
    using stageStart_other[OF l, of "Suc ?i" "cap ?t"] by simp
  show "status (agents (simWake k now s) ! ?i) = Complete"
    using c n by (simp add: w simExit_def)
  show "thinkingText (agents (simWake k now s) ! ?i) = doneMarker"
    using c n by (simp add: w simExit_def)
  show "if Suc ?i < length (cap ?t)
        then currentAgentIndex (simWake k now s) = int (Suc ?i) \<and>
             length (sims (simWake k now s)) = length (sims s) \<and>
             sim_i (sims (simWake k now s) ! k) = Suc ?i
        else currentAgentIndex (simWake k now s) = -1 \<and>
             sims (simWake k now s) = take k (sims s) @ drop (Suc k) (sims s)"
    using assms by (simp add: w stageStart_def simExit_def Let_def)
qed

lemma simulator_dwell_outcomes_example:
  "simWake 0 100 demoStarted = demoStarted \<and>
   status (agents (simWake 0 2500 demoStarted) ! 0) = Complete \<and>
   thinkingText (agents (simWake 0 2500 demoStarted) ! 0) = doneMarker \<and>
   currentAgentIndex (simWake 0 2500 demoStarted) = 1 \<and>
   currentAgentIndex (simWake 0 7500 (run [SimWake 0 5000] demoMid)) = -1 \<and>
   sims (simWake 0 7500 (run [SimWake 0 5000] demoMid)) = [] \<and>
   agents (simWake 0 2600 demoMidFailed) = agents demoMidFailed \<and>
   allLogs (simWake 0 2600 demoMidFailed) = allLogs demoMidFailed \<and>
   currentAgentIndex (simWake 0 2600 demoMidFailed) = -1 \<and>
   sims (simWake 0 2600 demoMidFailed) = []"
proof -
  let ?last = "run [SimWake 0 5000] demoMid"
  have k: "0 < length (sims demoStarted)" "0 < length (sims ?last)"
    "0 < length (sims demoMidFailed)"
    by code_simp+
  have s: "length (sims demoMidFailed) = 1" "length (sims ?last) = 1"
    by code_simp+
  have a: "isAnalyzingRef demoStarted \<and>
           100 - sim_start (sims demoStarted ! 0) < sim_waitTime (sims demoStarted ! 0)"
    by code_simp
  have b: "isAnalyzingRef demoStarted \<and>
           \<not> 2500 - sim_start (sims demoStarted ! 0) < sim_waitTime (sims demoStarted ! 0) \<and>
           sim_i (sims demoStarted ! 0) < length (cap (sims demoStarted ! 0)) \<and>
           sim_i (sims demoStarted ! 0) < length (agents demoStarted)"
    by code_simp
  have bi: "sim_i (sims demoStarted ! 0) = 0"
    "Suc (sim_i (sims demoStarted ! 0)) < length (cap (sims demoStarted ! 0))"
    by code_simp+
  have c: "isAnalyzingRef ?last \<and>
           \<not> 7500 - sim_start (sims ?last ! 0) < sim_waitTime (sims ?last ! 0) \<and>
           sim_i (sims ?last ! 0) < length (cap (sims ?last ! 0)) \<and>
           sim_i (sims ?last ! 0) < length (agents ?last)"
    by code_simp
  have ci: "\<not> Suc (sim_i (sims ?last ! 0)) < length (cap (sims ?last ! 0))"
    by code_simp
  have d: "\<not> isAnalyzingRef demoMidFailed" by code_simp
  note t1 = simulator_dwell_outcomes[OF k(1), of 100]
  note t2 = simulator_dwell_outcomes[OF k(1), of 2500]
  note t3 = simulator_dwell_outcomes[OF k(2), of 7500]
  note t4 = simulator_dwell_outcomes[OF k(3), of 2600]
  have w1: "simWake 0 100 demoStarted = demoStarted" using t1 a by blast
  have w2: "status (agents (simWake 0 2500 demoStarted) ! 0) = Complete \<and>
            thinkingText (agents (simWake 0 2500 demoStarted) ! 0) = doneMarker \<and>
            currentAgentIndex (simWake 0 2500 demoStarted) = 1"
    using conjunct2[OF conjunct2[OF t2]] b bi by simp
  have w3: "currentAgentIndex (simWake 0 7500 ?last) = -1 \<and>
            sims (simWake 0 7500 ?last) = take 0 (sims ?last) @ drop (Suc 0) (sims ?last)"
    using conjunct2[OF conjunct2[OF t3]] c ci by simp
  have w3': "sims (simWake 0 7500 ?last) = []"
    using w3 s(2) by simp
  have w4: "simWake 0 2600 demoMidFailed =
      demoMidFailed\<lparr>currentAgentIndex := -1,
        sims := take 0 (sims demoMidFailed) @ drop (Suc 0) (sims demoMidFailed)\<rparr>"
    using t4 d by blast
  have w4': "sims (simWake 0 2600 demoMidFailed) = []"
    unfolding w4 using s(1) by simp
  have w4'': "agents (simWake 0 2600 demoMidFailed) = agents demoMidFailed \<and>
     allLogs (simWake 0 2600 demoMidFailed) = allLogs demoMidFailed \<and>
     currentAgentIndex (simWake 0 2600 demoMidFailed) = -1"
    unfolding w4 by simp
  show ?thesis using w1 w2 w3 w3' w4' w4'' by blast
qed

section \<open>How many stages are running (C8)\<close>

lemma filter_at_most_one:
  "\<forall>j < length xs. P (xs ! j) \<longrightarrow> j = k \<Longrightarrow> length (filter P xs) \<le> 1"
proof (induction xs arbitrary: k)
  case Nil
  then show ?case by simp
next
  case (Cons x xs)
  show ?case
  proof (cases "P x")
    case True
    then have k0: "k = 0" using Cons.prems by auto
    have "\<forall>y\<in>set xs. \<not> P y"
    proof
      fix y assume "y \<in> set xs"
      then obtain j where j: "j < length xs" "xs ! j = y" by (auto simp: in_set_conv_nth)
      show "\<not> P y"
      proof
        assume "P y"
        then have "Suc j = k" using Cons.prems j by auto
        then show False using k0 by simp
      qed
    qed
    then have "filter P xs = []" by (simp add: filter_empty_conv)
    then show ?thesis by simp
  next
    case False
    have "\<forall>j < length xs. P (xs ! j) \<longrightarrow> j = k - 1"
      using Cons.prems by fastforce
    from Cons.IH[OF this] False show ?thesis by simp
  qed
qed

lemma oneSimulator_count: "oneSimulator s \<Longrightarrow> runningCount s \<le> 1"
proof -
  assume "oneSimulator s"
  then obtain k where "onlyRunningAt k s"
    unfolding oneSimulator_def by (auto split: list.splits)
  then have "\<forall>j < length (agents s). status (agents s ! j) = Running \<longrightarrow> j = k"
    by (simp add: onlyRunningAt_def)
  then show ?thesis
    unfolding runningCount_def by (rule filter_at_most_one)
qed


lemma onlyRunningAt_mono:
  assumes "onlyRunningAt k s"
    and "length (agents s') = length (agents s)"
    and "\<forall>j < length (agents s). status (agents s' ! j) = Running \<longrightarrow>
           status (agents s ! j) = Running"
  shows "onlyRunningAt k s'"
  using assms unfolding onlyRunningAt_def by simp

lemma oneSimulator_mono:
  assumes "oneSimulator s" and "sims s' = sims s"
    and "length (agents s') = length (agents s)"
    and "\<forall>j < length (agents s). status (agents s' ! j) = Running \<longrightarrow>
           status (agents s ! j) = Running"
  shows "oneSimulator s'"
proof (cases "sims s")
  case Nil
  then obtain k where "onlyRunningAt k s"
    using assms(1) by (auto simp: oneSimulator_def)
  then have "onlyRunningAt k s'" using assms(3,4) by (rule onlyRunningAt_mono)
  then show ?thesis using Nil assms(2) by (auto simp: oneSimulator_def)
next
  case (Cons t ts)
  then have ts: "ts = []" and "onlyRunningAt (sim_i t) s"
    using assms(1) by (auto simp: oneSimulator_def split: list.splits)
  then have "onlyRunningAt (sim_i t) s'" using assms(3,4) by (simp add: onlyRunningAt_mono)
  then show ?thesis using Cons ts assms(2) by (simp add: oneSimulator_def)
qed

lemma map_status_nth:
  "map status xs = map status ys \<Longrightarrow> j < length ys \<Longrightarrow> status (xs ! j) = status (ys ! j)"
  by (metis length_map nth_map)

lemma oneSimulator_narrationTick:
  assumes "oneSimulator s"
  shows "oneSimulator (narrationTick c n s)"
proof (rule oneSimulator_mono[OF assms])
  have m: "map status (agents (narrationTick c n s)) = map status (agents s)"
    by (simp add: narrationTick_frame)
  show "sims (narrationTick c n s) = sims s" by (simp add: narrationTick_frame)
  show "length (agents (narrationTick c n s)) = length (agents s)"
    using arg_cong[OF m, of length] by simp
  show "\<forall>j<length (agents s). status (agents (narrationTick c n s) ! j) = Running \<longrightarrow>
          status (agents s ! j) = Running"
    using map_status_nth[OF m] by simp
qed

lemma reconcileAgent_status:
  "status (reconcileAgent bas a) = Running \<Longrightarrow> status a = Running"
  by (simp add: reconcileAgent_def split: option.splits)

lemma oneSimulator_onFailure:
  assumes "oneSimulator s"
  shows "oneSimulator (finallyBlock (onFailure msg s))"
proof (rule oneSimulator_mono[OF assms])
  show "sims (finallyBlock (onFailure msg s)) = sims s"
    by (simp add: onFailure_def finallyBlock_def Let_def)
  show "length (agents (finallyBlock (onFailure msg s))) = length (agents s)"
    by (simp add: onFailure_def finallyBlock_def Let_def)
  show "\<forall>j<length (agents s). status (agents (finallyBlock (onFailure msg s)) ! j) = Running \<longrightarrow>
          status (agents s ! j) = Running"
    by (simp add: onFailure_def finallyBlock_def Let_def)
qed

lemma oneSimulator_onSuccess:
  assumes "oneSimulator s"
  shows "oneSimulator (finallyBlock (onSuccess data s))"
proof (rule oneSimulator_mono[OF assms])
  show "sims (finallyBlock (onSuccess data s)) = sims s"
    by (simp add: onSuccess_def finallyBlock_def Let_def split: option.splits)
  show "length (agents (finallyBlock (onSuccess data s))) = length (agents s)"
    by (simp add: onSuccess_def finallyBlock_def Let_def split: option.splits)
  show "\<forall>j<length (agents s). status (agents (finallyBlock (onSuccess data s)) ! j) = Running \<longrightarrow>
          status (agents s ! j) = Running"
    by (auto simp: onSuccess_def finallyBlock_def Let_def split: option.splits
          dest: reconcileAgent_status)
qed

lemma oneSimulator_resume: "oneSimulator s \<Longrightarrow> oneSimulator (resume out s)"
  by (simp add: resume_def oneSimulator_onFailure oneSimulator_onSuccess split: sum.splits)

lemma oneSimulator_requests: "oneSimulator (s\<lparr>requests := rs\<rparr>) = oneSimulator s"
  by (simp add: oneSimulator_def onlyRunningAt_def split: list.splits)

lemma oneSimulator_netArrive: "oneSimulator s \<Longrightarrow> oneSimulator (netArrive out s)"
  by (simp add: netArrive_def oneSimulator_resume oneSimulator_requests split: list.splits)

lemma oneSimulator_fileSelect:
  assumes "oneSimulator s"
  shows "oneSimulator (handleFileSelect f s)"
proof (rule oneSimulator_mono[OF assms])
  show "sims (handleFileSelect f s) = sims s"
    by (simp add: handleFileSelect_def Let_def)
  show "length (agents (handleFileSelect f s)) = length (agents s)"
    by (simp add: handleFileSelect_def Let_def)
  show "\<forall>j<length (agents s). status (agents (handleFileSelect f s) ! j) = Running \<longrightarrow>
          status (agents s ! j) = Running"
    by (simp add: handleFileSelect_def Let_def resetAgent_def)
qed

lemma onlyRunningAt_complete:
  assumes "onlyRunningAt i s"
  shows "onlyRunningAt k (completedLog c i (stageComplete i s))"
  using assms
  by (auto simp: onlyRunningAt_def completedLog_def stageComplete_def nth_mapAt)

lemma onlyRunningAt_start:
  assumes "\<forall>j < length (agents s). status (agents s ! j) \<noteq> Running"
  shows "onlyRunningAt i (stageStart c i s)"
  using assms
  by (simp add: onlyRunningAt_def stageStart_def Let_def nth_mapAt)

lemma none_running_after_complete:
  assumes "onlyRunningAt i s"
  shows "\<forall>j < length (agents (completedLog c i (stageComplete i s))).
           status (agents (completedLog c i (stageComplete i s)) ! j) \<noteq> Running"
  using assms
  by (auto simp: onlyRunningAt_def completedLog_def stageComplete_def nth_mapAt)

lemma oneSimulator_simWake:
  assumes "oneSimulator s"
  shows "oneSimulator (simWake k now s)"
proof (cases "sims s")
  case Nil
  then show ?thesis using assms by (simp add: simWake_def)
next
  case (Cons t ts)
  then have ts: "sims s = [t]" and o: "onlyRunningAt (sim_i t) s"
    using assms by (auto simp: oneSimulator_def split: list.splits)
  show ?thesis
  proof (cases "k = 0")
    case False
    then show ?thesis using assms ts by (simp add: simWake_def)
  next
    case True
    have k: "k < length (sims s)" and tk: "sims s ! k = t" using ts True by simp_all
    let ?s1 = "completedLog (cap t) (sim_i t) (stageComplete (sim_i t) s)"
    consider (cancelled) "\<not> isAnalyzingRef s"
      | (dwelling) "isAnalyzingRef s" "now - sim_start t < sim_waitTime t"
      | (over) "isAnalyzingRef s" "\<not> now - sim_start t < sim_waitTime t"
          "sim_i t < length (cap t)"
      | (dead) "isAnalyzingRef s" "\<not> now - sim_start t < sim_waitTime t"
          "\<not> sim_i t < length (cap t)"
      by blast
    then show ?thesis
    proof cases
      case cancelled
      have "simWake k now s = s\<lparr>currentAgentIndex := -1, sims := []\<rparr>"
        using simWake_cancelled[OF cancelled k, of now] ts True by simp
      moreover have "onlyRunningAt (sim_i t) (s\<lparr>currentAgentIndex := -1, sims := []\<rparr>)"
        using o by (simp add: onlyRunningAt_def)
      ultimately show ?thesis by (auto simp: oneSimulator_def)
    next
      case dwelling
      moreover have "(sims s)[k := t] = sims s"
        using list_update_id[of "sims s" k] tk by simp
      ultimately have "simWake k now s = s"
        using k tk by (simp add: simWake_def simDwell_step)
      then show ?thesis using assms by simp
    next
      case over
      note w = simWake_dwell_over[OF k over(1), of now, unfolded tk, OF over(2,3)]
      show ?thesis
      proof (cases "Suc (sim_i t) < length (cap t)")
        case True
        have "onlyRunningAt (Suc (sim_i t)) (stageStart (cap t) (Suc (sim_i t)) ?s1)"
          using none_running_after_complete[OF o] by (rule onlyRunningAt_start)
        then show ?thesis
          using w True ts \<open>k = 0\<close>
          by (simp add: Let_def oneSimulator_def onlyRunningAt_def)
      next
        case False
        have "onlyRunningAt 0 ?s1" using o by (rule onlyRunningAt_complete)
        then have "onlyRunningAt 0 (simExit ?s1)"
          by (simp add: onlyRunningAt_def simExit_def)
        then show ?thesis
          using w False ts \<open>k = 0\<close>
          by (auto simp: Let_def oneSimulator_def onlyRunningAt_def)
      qed
    next
      case dead
      have w: "simWake k now s = (stageComplete (sim_i t) s)\<lparr>sims := []\<rparr>"
        using dead k tk ts \<open>k = 0\<close> by (simp add: simWake_def simDwell_step stageComplete_def)
      have "onlyRunningAt 0 (stageComplete (sim_i t) s)"
        using o by (auto simp: onlyRunningAt_def stageComplete_def nth_mapAt)
      then show ?thesis
        unfolding w by (auto simp: oneSimulator_def onlyRunningAt_def)
    qed
  qed
qed

lemma oneSimulator_step: "oneSimulator s \<Longrightarrow> oneSimulator (step e s)"
proof (cases e)
  case (SetClaimedAmount v)
  assume "oneSimulator s"
  then show ?thesis
    using SetClaimedAmount by (simp add: oneSimulator_def onlyRunningAt_def split: list.splits)
qed (simp_all add: oneSimulator_simWake oneSimulator_netArrive oneSimulator_narrationTick
       oneSimulator_fileSelect)

lemma oneSimulator_run: "oneSimulator s \<Longrightarrow> oneSimulator (run evs s)"
proof (induction evs arbitrary: s)
  case Nil
  then show ?case by (simp add: run_def)
next
  case (Cons e evs)
  have "run (e # evs) s = run evs (step e s)" by (simp add: run_def)
  then show ?case using Cons.IH[OF oneSimulator_step[OF Cons.prems]] by simp
qed

lemma oneSimulator_handleAnalyze:
  assumes "sims s = []" and "fileSel s \<noteq> None" and "claimedAmount s \<noteq> []"
  shows "oneSimulator (handleAnalyze rnd now s)"
proof -
  let ?r = "resetRun s"
  have r: "isAnalyzingRef ?r" "sims ?r = []"
    "\<forall>j < length (agents ?r). status (agents ?r ! j) \<noteq> Running"
    using assms(1) by (simp_all add: resetRun_def Let_def resetAgent_def)
  have "oneSimulator (simulateAgentProgress (agents s) rnd now ?r)"
  proof (cases "agents s = []")
    case True
    then show ?thesis
      using r by (simp add: simulateAgentProgress_def simLoop_step simExit_def
            oneSimulator_def onlyRunningAt_def)
  next
    case False
    have "onlyRunningAt 0 (stageStart (agents s) 0 ?r)"
      using r(3) by (rule onlyRunningAt_start)
    moreover have "sims (stageStart (agents s) 0 ?r) = []"
      using r(2) by (simp add: stageStart_def Let_def)
    ultimately show ?thesis
      using False r(1)
      by (simp add: simulateAgentProgress_def simLoop_step oneSimulator_def onlyRunningAt_def)
  qed
  then have "oneSimulator ((simulateAgentProgress (agents s) rnd now ?r)
      \<lparr>requests := requests (simulateAgentProgress (agents s) rnd now ?r) @
         [\<lparr>image_f = the (fileSel s), claimed_amount = claimedAmount s,
           expected_bank = expectedBank s\<rparr>]\<rparr>)"
    by (simp add: oneSimulator_requests)
  then show ?thesis
    using assms(2,3) by (auto simp: handleAnalyze_def Let_def)
qed

text \<open>
  A run that starts while no simulator is asleep has at most one running stage in every
  state it reaches, whatever timers fire, whenever the request ends and whatever file is
  selected meanwhile: the simulator enters a stage only in the stretch in which it has
  completed the one before, and neither the reconciler nor the narration nor the file
  selection makes a stage running.
\<close>

lemma single_simulator_at_most_one_running:
  assumes "sims s = []" and "fileSel s \<noteq> None" and "claimedAmount s \<noteq> []"
  shows "runningCount (run evs (handleAnalyze rnd now s)) \<le> 1"
  by (rule oneSimulator_count[OF oneSimulator_run[OF oneSimulator_handleAnalyze[OF assms]]])

text \<open>
  Claim C8 (at most one stage is running while the simulator is active) does not hold of
  the code when a run starts while the simulator of the run before is still asleep. The
  \<open>finally\<close> block enables the button at once, the sleeping simulator polls the flag
  only at its next wake-up, and \<open>handleAnalyze\<close> sets that same flag again. In the
  scenario the request fails at 2500 ms while the first simulator dwells on the second
  stage; the analysis is started again at 2550 ms; at 5000 ms the first simulator finds
  the flag set, completes the second stage and enters the third, while the second
  simulator still dwells on the first stage: two stages are running.
\<close>

theorem overlapping_simulators_two_running:
  "isAnalyzing demoMidFailed = False \<and>
   length (sims demoMidFailed) = 1 \<and>
   length (sims demoRestarted) = 2 \<and>
   isAnalyzingRef demoRestarted = True \<and>
   map status (agents demoRestarted) = [Running, Pending, Pending] \<and>
   map status (agents (run [SimWake 0 5000] demoRestarted)) = [Running, Complete, Running] \<and>
   runningCount (run [SimWake 0 5000] demoRestarted) = 2"
  by code_simp

section \<open>Cancellation during a dwell (C3, C4)\<close>

text \<open>
  Claim C4 (a cancellation requested during a dwell makes the loop exit without completing
  the stage, without its "task completed" line and without entering a later stage) does
  not hold of the code when the next run starts before the sleeping simulator has polled
  the flag. In the scenario the simulator dwells on the second stage since 2500 ms; the
  request fails and clears the flag while it sleeps; \<open>handleAnalyze\<close> sets the flag again
  at 2550 ms; the simulator finds it set at 2600 ms and, at 5000 ms, completes the second
  stage with the done marker, writes its "task completed" line and enters the third stage.
\<close>

theorem cancelled_dwell_completes_stage:
  "isAnalyzingRef demoMid = True \<and>
   sim_i (sims demoMid ! 0) = 1 \<and>
   sim_start (sims demoMid ! 0) = 2500 \<and>
   isAnalyzingRef demoMidFailed = False \<and>
   map status (agents demoMidFailed) = [Error, Error, Error] \<and>
   sim_i (sims demoRestarted ! 0) = 1 \<and>
   sim_start (sims demoRestarted ! 0) = 2500 \<and>
   status (agents demoRestarted ! 1) = Pending \<and>
   status (agents demoStaleResumed ! 1) = Complete \<and>
   thinkingText (agents demoStaleResumed ! 1) = doneMarker \<and>
   allLogs demoStaleResumed ! 1 = iconPrivacy @ '' Agent Privacy task completed.'' \<and>
   status (agents demoStaleResumed ! 2) = Running \<and>
   currentAgentIndex demoStaleResumed = 2 \<and>
   sim_i (sims demoStaleResumed ! 0) = 2"
  by code_simp

text \<open>
  Claim C3 (once the flag is cleared the simulator changes neither a stage nor the global
  log later than one polling interval after) does not hold of the code in the same
  scenario. The flag is cleared at 2500 ms; the simulator polls it at 2600 ms, one interval
  later, finds it set again by the run started at 2550 ms and changes nothing; at 5000 ms
  it appends two lines to the global log and changes the status of two stages.
\<close>

theorem cancelled_simulator_writes_later:
  "isAnalyzingRef demoMidFailed = False \<and>
   length (sims demoMidFailed) = 1 \<and>
   isAnalyzingRef demoRestarted = True \<and>
   map status (agents demoRestarted) = [Running, Pending, Pending] \<and>
   map status (agents demoStalePoll) = [Running, Pending, Pending] \<and>
   allLogs demoStalePoll = allLogs demoRestarted \<and>
   length (sims demoStalePoll) = 2 \<and>
   allLogs demoStaleResumed =
     allLogs demoRestarted @
       [iconPrivacy @ '' Agent Privacy task completed.'',
        iconVision @ '' Agent Vision initialized...''] \<and>
   map status (agents demoStaleResumed) = [Running, Complete, Running]"
  by code_simp

end
